theory Spec2Isabelle
  imports Complex_Main
begin

section \<open>Strings\<close>

text \<open>
  A text is a list of characters. A character of the model is a code unit below 256
  (the Latin-1 range of the source's strings), so \<open>length\<close> is the source's
  \<^verbatim>\<open>.length\<close> on such texts.
\<close>

definition isWhiteSpace :: "char \<Rightarrow> bool" where
  \<comment> \<open>the characters matched by \<^verbatim>\<open>\s\<close> and removed by \<^verbatim>\<open>trim()\<close>\<close>
  "isWhiteSpace c =
     (c = CHR 0x09 \<or> c = CHR 0x0A \<or> c = CHR 0x0B \<or> c = CHR 0x0C \<or> c = CHR 0x0D
      \<or> c = CHR 0x20 \<or> c = CHR 0xA0)"

definition lowerChar :: "char \<Rightarrow> char" where
  "lowerChar c =
     (let n = (of_char c :: nat)
      in if (65 \<le> n \<and> n \<le> 90) \<or> (192 \<le> n \<and> n \<le> 222 \<and> n \<noteq> 215)
         then char_of (n + 32) else c)"

definition toLowerCase :: "string \<Rightarrow> string" where
  "toLowerCase s = map lowerChar s"

fun startsWith :: "string \<Rightarrow> string \<Rightarrow> bool" where
  "startsWith s [] = True"
| "startsWith [] (a # p) = False"
| "startsWith (b # s) (a # p) = (a = b \<and> startsWith s p)"

fun includes_str :: "string \<Rightarrow> string \<Rightarrow> bool" where
  \<comment> \<open>\<^verbatim>\<open>s.includes(p)\<close>\<close>
  "includes_str [] p = (p = [])"
| "includes_str (c # cs) p = (startsWith (c # cs) p \<or> includes_str cs p)"

fun join :: "string \<Rightarrow> string list \<Rightarrow> string" where
  \<comment> \<open>\<^verbatim>\<open>xs.join(sep)\<close>\<close>
  "join sep [] = []"
| "join sep [x] = x"
| "join sep (x # y # ys) = x @ sep @ join sep (y # ys)"

definition trim :: "string \<Rightarrow> string" where
  "trim s = rev (dropWhile isWhiteSpace (rev (dropWhile isWhiteSpace s)))"

section \<open>Double-precision numbers\<close>

text \<open>
  The source's numbers are IEEE 754 doubles. A finite double is modelled by the rational
  number it denotes. An arithmetic operation of the source computes the exact result
  and rounds it to the nearest double, ties to the even significand: \<open>fl\<close> does the
  rounding, for a significand of 53 bits. \<^verbatim>\<open>Math.sqrt\<close> is the correctly rounded square
  root. \<^verbatim>\<open>Math.pow(d, 2)\<close>, which the language leaves to the implementation, is taken
  as the rounded product of \<open>d\<close> with itself. \<^verbatim>\<open>Math.round\<close> is \<open>round\<close>, the floor of the
  number plus one half. Infinities, NaN and subnormal numbers are not modelled: the
  statistics of a text never reach them, and a classifier's score reaches them only
  beyond a magnitude of \<open>10 ^ 306\<close>.
\<close>

function bits :: "int \<Rightarrow> int" where
  \<comment> \<open>the number of binary digits of a positive integer\<close>
  "bits n = (if n \<le> 0 then 0 else 1 + bits (n div 2))"
  by pat_completeness auto
termination by (relation "measure nat") auto

declare bits.simps [simp del]

definition pow2 :: "int \<Rightarrow> rat" where
  "pow2 k = 2 powi k"

definition expo :: "rat \<Rightarrow> int" where
  \<comment> \<open>the binary exponent \<open>e\<close> of a positive number: \<open>2 powi e \<le> x < 2 powi (e + 1)\<close>\<close>
  "expo x = (let (p, q) = quotient_of x;
                 e0 = bits p - bits q
             in if pow2 e0 \<le> x then e0 else e0 - 1)"

definition roundHalfEven :: "rat \<Rightarrow> int" where
  "roundHalfEven r =
     (let f = \<lfloor>r\<rfloor>; d = r - of_int f
      in if d < 1 / 2 then f else if d > 1 / 2 then f + 1
         else if even f then f else f + 1)"

definition fl :: "rat \<Rightarrow> rat" where
  "fl x = (if x = 0 then 0
           else let q = pow2 (expo \<bar>x\<bar> - 52)
                in sgn x * of_int (roundHalfEven (\<bar>x\<bar> / q)) * q)"

definition fadd :: "rat \<Rightarrow> rat \<Rightarrow> rat" where
  "fadd a b = fl (a + b)"

definition fsub :: "rat \<Rightarrow> rat \<Rightarrow> rat" where
  "fsub a b = fl (a - b)"

definition fmul :: "rat \<Rightarrow> rat \<Rightarrow> rat" where
  "fmul a b = fl (a * b)"

definition fdiv :: "rat \<Rightarrow> rat \<Rightarrow> rat" where
  "fdiv a b = fl (a / b)"

definition fsquare :: "rat \<Rightarrow> rat" where
  \<comment> \<open>\<^verbatim>\<open>Math.pow(d, 2)\<close>\<close>
  "fsquare d = fmul d d"

function isqrt :: "int \<Rightarrow> int" where
  \<comment> \<open>the integer part of the square root\<close>
  "isqrt n = (if n < 2 then n
              else let r = 2 * isqrt (n div 4) in if (r + 1) * (r + 1) \<le> n then r + 1 else r)"
  by pat_completeness auto
termination by (relation "measure nat") auto

declare isqrt.simps [simp del]

definition fsqrt :: "rat \<Rightarrow> rat" where
  \<comment> \<open>\<^verbatim>\<open>Math.sqrt\<close>: the double nearest to the root, found on the scaled integer part\<close>
  "fsqrt x = (if x \<le> 0 then 0
              else let q = pow2 (expo x div 2 - 52);
                       s = x / (q * q);
                       n = isqrt \<lfloor>s\<rfloor>;
                       mid = (of_int n + 1 / 2) * (of_int n + 1 / 2)
                   in of_int (if s < mid then n else if s > mid then n + 1
                              else if even n then n else n + 1) * q)"

section \<open>Verdicts\<close>

record verdict =
  score :: int
  reason :: string

record cloud_verdict = verdict +
  source :: string

section \<open>Pattern detector\<close>

definition aiPhrases :: "string list" where
  "aiPhrases =
     [''as an ai language model'', ''regenerate response'', ''language model'',
      ''it is important to note'', ''in summary'', ''in conclusion'', ''moreover'',
      ''furthermore'', ''consequently'', ''on the other hand'', ''additionally'',
      ''however'', ''thus'', ''therefore'', ''significantly'', ''notably'', ''crucial to'',
      ''essential to'', ''paramount importance'', ''delves into'', ''underscore'',
      ''emphasize'', ''comprehensive'', ''landscape of'', ''realm of'', ''tapestry'',
      ''nuanced'', ''multifaceted'', ''pivotal role'', ''key aspects'', ''worth noting'',
      ''by and large'', ''in essence'']"

definition dquote :: string where
  "dquote = [CHR 0x22]"

definition scanPhrases :: "string \<Rightarrow> nat \<times> string list" where
  \<comment> \<open>the \<^verbatim>\<open>forEach\<close> loop: the counter and the list of phrases found, in list order\<close>
  "scanPhrases lower =
     foldl (\<lambda>(foundCount, foundPhrases) p.
              if includes_str lower (toLowerCase p)
              then (foundCount + 1, foundPhrases @ [p])
              else (foundCount, foundPhrases))
           (0, []) aiPhrases"

definition checkAIPatterns :: "string \<Rightarrow> verdict" where
  "checkAIPatterns text =
     (let lower = toLowerCase text;
          (foundCount, foundPhrases) = scanPhrases lower
      in if foundCount > 0
         then \<lparr> score = (if foundCount > 1 then 98 else 65),
                reason = ''Detected AI-typical phrasing: '' @ dquote
                         @ join (dquote @ '', '' @ dquote) (take 3 foundPhrases) @ dquote \<rparr>
         else \<lparr> score = 0, reason = [] \<rparr>)"

text \<open>
  The property the pattern detector is specified by: a phrase occurs in a text as a
  case-insensitive substring.
\<close>

definition occursIn :: "string \<Rightarrow> string \<Rightarrow> bool" where
  "occursIn p text = (\<exists>pre post. toLowerCase text = pre @ toLowerCase p @ post)"

definition matchedPhrases :: "string \<Rightarrow> string list" where
  "matchedPhrases text = filter (\<lambda>p. occursIn p text) aiPhrases"

section \<open>Statistical detector\<close>

text \<open>
  Scores are integers. The averages, the variance and the burstiness are doubles,
  computed with the rounding operations in the order of the source: each \<^verbatim>\<open>reduce\<close> is
  a fold from the left.
\<close>

fun replaceWs :: "string \<Rightarrow> string" where
  \<comment> \<open>\<^verbatim>\<open>text.replace(/\s+/g, ' ')\<close>: every maximal run of white space becomes one space\<close>
  "replaceWs [] = []"
| "replaceWs [c] = [if isWhiteSpace c then CHR 0x20 else c]"
| "replaceWs (c # d # cs) =
     (if isWhiteSpace c
      then (if isWhiteSpace d then replaceWs (d # cs) else CHR 0x20 # replaceWs (d # cs))
      else c # replaceWs (d # cs))"

definition isTerminator :: "char \<Rightarrow> bool" where
  "isTerminator c = (c = CHR ''.'' \<or> c = CHR ''!'' \<or> c = CHR ''?'')"

text \<open>
  \<^verbatim>\<open>s.match(/[^.!?]+[.!?]+/g)\<close>: the matches from left to right. A match is a maximal
  non-empty run of non-terminators followed by a maximal non-empty run of terminators;
  terminators before a match are skipped, and a last run with no terminator after it
  matches nothing. The empty list stands for \<^verbatim>\<open>null\<close>.
\<close>

function matchSentences :: "string \<Rightarrow> string list" where
  "matchSentences s =
     (let s1 = dropWhile isTerminator s;
          body = takeWhile (\<lambda>c. \<not> isTerminator c) s1;
          s2 = dropWhile (\<lambda>c. \<not> isTerminator c) s1;
          marks = takeWhile isTerminator s2;
          rest = dropWhile isTerminator s2
      in if body = [] \<or> marks = [] then [] else (body @ marks) # matchSentences rest)"
  by pat_completeness auto
termination
proof (relation "measure length")
  show "wf (measure length)" by simp
next
  fix s s1 body s2 marks rest :: string
  assume s1: "s1 = dropWhile isTerminator s"
    and body: "body = takeWhile (\<lambda>c. \<not> isTerminator c) s1"
    and s2: "s2 = dropWhile (\<lambda>c. \<not> isTerminator c) s1"
    and rest: "rest = dropWhile isTerminator s2"
    and ne: "\<not> (body = [] \<or> marks = [])"
  have "length rest \<le> length s2"
    unfolding rest by (rule length_dropWhile_le)
  moreover have "length s2 < length s1"
  proof -
    have "length s1 = length body + length s2"
      unfolding body s2 by (metis length_append takeWhile_dropWhile_id)
    moreover from ne have "0 < length body" by simp
    ultimately show ?thesis by simp
  qed
  moreover have "length s1 \<le> length s"
    unfolding s1 by (rule length_dropWhile_le)
  ultimately show "(rest, s) \<in> measure length" by simp
qed

fun split_sp :: "string \<Rightarrow> string list" where
  \<comment> \<open>\<^verbatim>\<open>s.split(' ')\<close>\<close>
  "split_sp [] = [[]]"
| "split_sp (c # cs) =
     (if c = CHR 0x20 then [] # split_sp cs
      else (case split_sp cs of w # ws \<Rightarrow> (c # w) # ws | [] \<Rightarrow> [[c]]))"

definition cleanText :: "string \<Rightarrow> string" where
  "cleanText text = trim (replaceWs text)"

definition sentences :: "string \<Rightarrow> string list" where
  "sentences text =
     (let m = matchSentences (cleanText text) in if m = [] then [cleanText text] else m)"

definition words :: "string \<Rightarrow> string list" where
  "words text = split_sp (cleanText text)"

definition lengths :: "string \<Rightarrow> nat list" where
  "lengths text = map (\<lambda>s. length (split_sp s)) (sentences text)"

definition avgLen :: "string \<Rightarrow> rat" where
  "avgLen text =
     fdiv (foldl (\<lambda>a b. fadd a (of_nat b)) 0 (lengths text)) (of_nat (length (lengths text)))"

definition variance :: "string \<Rightarrow> rat" where
  "variance text =
     fdiv (foldl (\<lambda>a b. fadd a (fsquare (fsub (of_nat b) (avgLen text)))) 0 (lengths text))
       (of_nat (length (lengths text)))"

definition burstiness :: "string \<Rightarrow> rat" where
  "burstiness text = fsqrt (variance text)"

definition avgWordLen :: "string \<Rightarrow> rat" where
  "avgWordLen text =
     fdiv (foldl (\<lambda>a b. fadd a (of_nat (length b))) 0 (words text))
       (of_nat (length (words text)))"

definition localStatisticalAnalysis :: "string \<Rightarrow> verdict" where
  "localStatisticalAnalysis text =
     (let score0 = (20 :: int);
          reasons0 = ([] :: string list);
          (score1, reasons1) =
            (if avgLen text > 12 \<and> avgLen text < 28
             then (score0 + 20, reasons0 @ [''Average sentence length matches AI patterns.''])
             else (score0, reasons0));
          (score2, reasons2) =
            (if burstiness text < 6
             then (score1 + 55,
                   reasons1 @ [''Sentence structure is unnaturally uniform (Robotic).''])
             else if burstiness text < 12
             then (score1 + 30, reasons1 @ [''Lacks human-like variation in sentence length.''])
             else (score1, reasons1));
          score3 = (if avgWordLen text > 5 then score2 + 10 else score2);
          joined = join '' '' reasons2
      in \<lparr> score = min score3 100,
           reason = (if joined = [] then ''Text seems robotic.'' else joined) \<rparr>)"

text \<open>
  The statistics as the specification words them: the mean and the standard deviation of
  a list of counts, as real numbers; the words of a text, which are its maximal runs of
  characters other than the space; and the score the specification gives, on the number
  of words of each sentence.
\<close>

definition mean :: "nat list \<Rightarrow> real" where
  "mean xs = real (sum_list xs) / real (length xs)"

definition stddev :: "nat list \<Rightarrow> real" where
  "stddev xs = sqrt ((\<Sum>x\<leftarrow>xs. (real x - mean xs) ^ 2) / real (length xs))"

definition wordsOf :: "string \<Rightarrow> string list" where
  "wordsOf s = filter (\<lambda>w. w \<noteq> []) (split_sp s)"

definition wordCounts :: "string \<Rightarrow> nat list" where
  "wordCounts text = map (\<lambda>s. length (wordsOf s)) (sentences text)"

definition specifiedScore :: "string \<Rightarrow> int" where
  "specifiedScore text =
     min 100
       (20
        + (if 12 < mean (wordCounts text) \<and> mean (wordCounts text) < 28 then 20 else 0)
        + (if stddev (wordCounts text) < 6 then 55
           else if stddev (wordCounts text) < 12 then 30 else 0)
        + (if 5 < mean (map length (wordsOf (cleanText text))) then 10 else 0))"

section \<open>Remote-ensemble detector\<close>

text \<open>
  What a classifier endpoint can answer. \<open>Rejected\<close>: the \<^verbatim>\<open>fetch\<close> promise rejects
  (a network error). \<open>Response ok body\<close>: a response arrived, with its \<^verbatim>\<open>ok\<close> flag and
  its body. A body is \<open>NotJson\<close> when \<^verbatim>\<open>res.json()\<close> rejects; \<open>IllShaped\<close> when it is
  JSON on which the extraction \<^verbatim>\<open>json[0]?.find(...)\<close> throws (it is \<^verbatim>\<open>null\<close>, or its
  first element is not an array); \<open>NoLabels\<close> when \<^verbatim>\<open>json[0]\<close> is undefined or null;
  \<open>Labels xs\<close> when \<^verbatim>\<open>json[0]\<close> is the array \<open>xs\<close> of label/score pairs, each score the
  double the body gives.
\<close>

datatype js_error = SyntaxError | TypeError

datatype body = NotJson | IllShaped | NoLabels | Labels "(string \<times> rat) list"

datatype response = Rejected | Response bool body

definition fakeOf :: "(string \<Rightarrow> bool) \<Rightarrow> body \<Rightarrow> js_error + rat" where
  \<comment> \<open>\<^verbatim>\<open>json[0]?.find(x => isAi(x.label))?.score || 0\<close>, after \<^verbatim>\<open>await res.json()\<close>\<close>
  "fakeOf isAiLabel b =
     (case b of
        NotJson \<Rightarrow> Inl SyntaxError
      | IllShaped \<Rightarrow> Inl TypeError
      | NoLabels \<Rightarrow> Inr 0
      | Labels xs \<Rightarrow>
          Inr (case find (\<lambda>x. isAiLabel (fst x)) xs of None \<Rightarrow> 0 | Some x \<Rightarrow> snd x))"

definition labelA :: "string \<Rightarrow> bool" where
  "labelA l = (l = ''Fake'')"

definition labelB :: "string \<Rightarrow> bool" where
  "labelB l = (l = ''ChatGPT'' \<or> l = ''Fake'')"

definition considerModel :: "(string \<Rightarrow> bool) \<Rightarrow> string \<Rightarrow> bool \<Rightarrow> body \<Rightarrow> rat \<times> string
    \<Rightarrow> js_error + rat \<times> string" where
  \<comment> \<open>one \<^verbatim>\<open>if (res.ok) { ... }\<close> block, on the running \<^verbatim>\<open>maxScore\<close> and \<^verbatim>\<open>source\<close>\<close>
  "considerModel isAiLabel name ok b st =
     (if ok
      then (case fakeOf isAiLabel b of
              Inl e \<Rightarrow> Inl e
            | Inr fake \<Rightarrow> Inr (if fake > fst st then (fake, name) else st))
      else Inr st)"

definition detectAI :: "(string \<Rightarrow> response) \<Rightarrow> (string \<Rightarrow> response) \<Rightarrow> string
    \<Rightarrow> cloud_verdict option" where
  "detectAI fetchA fetchB text =
     (case (fetchA (take 510 text), fetchB (take 510 text)) of
        (Response okA bodyA, Response okB bodyB) \<Rightarrow>
          (case considerModel labelA ''RoBERTa Model'' okA bodyA (0, []) of
             Inl e \<Rightarrow> None
           | Inr st1 \<Rightarrow>
               (case considerModel labelB ''ChatGPT Detector'' okB bodyB st1 of
                  Inl e \<Rightarrow> None
                | Inr (maxScore, src) \<Rightarrow>
                    if maxScore > 1 / 2
                    then Some \<lparr> score = round (fmul maxScore 100),
                                reason = ''Deep Learning analysis flagged AI patterns.'',
                                source = src \<rparr>
                    else None))
      | _ \<Rightarrow> None)"

section \<open>Score resolver\<close>

record segment =
  segText :: string
  isAi :: bool

record analysis =
  aiPercentage :: int
  reasoning :: string
  aiSegments :: "segment list"

definition resolveVerdict :: "verdict \<Rightarrow> cloud_verdict option \<Rightarrow> verdict \<Rightarrow> int \<times> string" where
  \<comment> \<open>the \<^verbatim>\<open>if / else if / else\<close> chain that sets \<^verbatim>\<open>aiScore\<close> and \<^verbatim>\<open>aiReason\<close>\<close>
  "resolveVerdict patternResult cloudResult statResult =
     (if score patternResult > 50 then (score patternResult, reason patternResult)
      else (case cloudResult of
              Some c \<Rightarrow>
                if score c > score statResult then (score c, reason c)
                else (score statResult, reason statResult)
            | None \<Rightarrow> (score statResult, reason statResult)))"

definition finalClamp :: "int \<Rightarrow> int" where
  \<comment> \<open>the two statements after the chain, in their order\<close>
  "finalClamp aiScore =
     (let s = (if aiScore < 10 then 15 else aiScore) in if s > 99 then 99 else s)"

definition resolved :: "(string \<Rightarrow> response) \<Rightarrow> (string \<Rightarrow> response) \<Rightarrow> string \<Rightarrow> int \<times> string" where
  "resolved fetchA fetchB text =
     (let patternResult = checkAIPatterns text;
          cloudResult = detectAI fetchA fetchB text;
          statResult = localStatisticalAnalysis text
      in resolveVerdict patternResult cloudResult statResult)"

definition performAnalysis :: "(string \<Rightarrow> response) \<Rightarrow> (string \<Rightarrow> response) \<Rightarrow> string
    \<Rightarrow> analysis" where
  "performAnalysis fetchA fetchB text =
     (let (aiScore0, aiReason) = resolved fetchA fetchB text;
          aiScore = finalClamp aiScore0
      in \<lparr> aiPercentage = aiScore, reasoning = aiReason,
           aiSegments = [\<lparr> segText = text, isAi = (aiScore > 50) \<rparr>] \<rparr>)"

section \<open>Extraction cascade\<close>

text \<open>
  What a strategy does when it is invoked on the uploaded file: \<open>Produced t\<close> when it
  reaches its assignment to \<^verbatim>\<open>extracted\<close> with the text \<open>t\<close>, \<open>Failed\<close> otherwise (an
  exception, a response that is not ok, a missing field). The progress indication and
  the console are not modelled.
\<close>

datatype strategy = TrOCR | OcrSpace | Tesseract

datatype extraction = Failed | Produced string

datatype scan_error = CouldNotExtract

record cascade =
  extracted :: string
  invoked :: "strategy list"

definition needsNext :: "string \<Rightarrow> bool" where
  \<comment> \<open>\<^verbatim>\<open>!extracted || extracted.length < 5\<close>\<close>
  "needsNext e = (e = [] \<or> length e < 5)"

definition strategy1 :: "extraction \<Rightarrow> cascade \<Rightarrow> cascade" where
  "strategy1 r st =
     (let st1 = st\<lparr> invoked := invoked st @ [TrOCR] \<rparr>
      in case r of
           Produced t \<Rightarrow> if t \<noteq> [] then st1\<lparr> extracted := t \<rparr> else st1
         | Failed \<Rightarrow> st1)"

definition strategy2 :: "extraction \<Rightarrow> cascade \<Rightarrow> cascade" where
  "strategy2 r st =
     (if needsNext (extracted st)
      then (let st1 = st\<lparr> invoked := invoked st @ [OcrSpace] \<rparr>
            in case r of Produced t \<Rightarrow> st1\<lparr> extracted := t \<rparr> | Failed \<Rightarrow> st1)
      else st)"

definition strategy3 :: "extraction \<Rightarrow> cascade \<Rightarrow> cascade" where
  "strategy3 r st =
     (if needsNext (extracted st)
      then (let st1 = st\<lparr> invoked := invoked st @ [Tesseract] \<rparr>
            in case r of Produced t \<Rightarrow> st1\<lparr> extracted := t \<rparr> | Failed \<Rightarrow> st1)
      else st)"

definition runCascade :: "extraction \<Rightarrow> extraction \<Rightarrow> extraction \<Rightarrow> cascade" where
  "runCascade r1 r2 r3 =
     strategy3 r3 (strategy2 r2 (strategy1 r1 \<lparr> extracted = [], invoked = [] \<rparr>))"

definition startScan :: "(string \<Rightarrow> response) \<Rightarrow> (string \<Rightarrow> response)
    \<Rightarrow> extraction \<Rightarrow> extraction \<Rightarrow> extraction \<Rightarrow> scan_error + string \<times> analysis" where
  "startScan fetchA fetchB r1 r2 r3 =
     (let e = extracted (runCascade r1 r2 r3)
      in if e \<noteq> [] \<and> length (trim e) > 0
         then Inr (e, performAnalysis fetchA fetchB e)
         else Inl CouldNotExtract)"

text \<open>Usable text, as the specification words it.\<close>

definition usable :: "extraction \<Rightarrow> bool" where
  "usable r = (case r of Failed \<Rightarrow> False | Produced t \<Rightarrow> length (trim t) \<ge> 5)"

text \<open>The text a strategy leaves in \<^verbatim>\<open>extracted\<close> when it runs on the empty text.\<close>

definition textOf :: "extraction \<Rightarrow> string" where
  "textOf r = (case r of Failed \<Rightarrow> [] | Produced t \<Rightarrow> t)"

text \<open>A strategy that fails, or whose text is empty once trimmed.\<close>

definition blank :: "extraction \<Rightarrow> bool" where
  "blank r = (case r of Failed \<Rightarrow> True | Produced t \<Rightarrow> trim t = [])"

section \<open>The remote-ensemble detector, as specified\<close>

text \<open>
  A failed endpoint, as the specification words it: the request fails on the network,
  the answer has an error status, or its body is not JSON or does not have the shape
  of a classifier's answer.
\<close>

definition endpointFailed :: "response \<Rightarrow> bool" where
  "endpointFailed r =
     (case r of
        Rejected \<Rightarrow> True
      | Response ok b \<Rightarrow> (if ok then b = NotJson \<or> b = IllShaped \<or> b = NoLabels else True))"

text \<open>
  The failures that reach the \<^verbatim>\<open>catch\<close> of the source: a rejected request, or a body
  that is read, because the status is ok, and on which \<^verbatim>\<open>res.json()\<close> or the
  extraction throws.
\<close>

definition endpointThrows :: "response \<Rightarrow> bool" where
  "endpointThrows r =
     (case r of Rejected \<Rightarrow> True | Response ok b \<Rightarrow> ok \<and> (b = NotJson \<or> b = IllShaped))"

text \<open>
  The probability an endpoint gives the AI label: the score of the first pair with such
  a label in an answer with an ok status, and 0 when there is none.
\<close>

definition aiProbability :: "(string \<Rightarrow> bool) \<Rightarrow> response \<Rightarrow> rat" where
  "aiProbability isAiLabel r =
     (case r of
        Response ok (Labels xs) \<Rightarrow>
          if ok then (case find (\<lambda>x. isAiLabel (fst x)) xs of None \<Rightarrow> 0 | Some x \<Rightarrow> snd x)
          else 0
      | _ \<Rightarrow> 0)"

section \<open>Example inputs\<close>

definition offline :: "string \<Rightarrow> response" where
  "offline request = Rejected"

definition unavailable :: "string \<Rightarrow> response" where
  \<comment> \<open>an answer with an error status, such as 503 while the model loads\<close>
  "unavailable request = Response False NoLabels"

definition flagging :: "string \<Rightarrow> response" where
  "flagging request = Response True (Labels [(''Human'', 1 / 8), (''ChatGPT'', 7 / 8)])"

definition doubting :: "string \<Rightarrow> response" where
  "doubting request = Response True (Labels [(''Real'', 5 / 8), (''Fake'', 3 / 8)])"

definition garbled :: "string \<Rightarrow> response" where
  "garbled request = Response True NotJson"

definition borderline :: "string \<Rightarrow> response" where
  \<comment> \<open>the score is the double nearest to 0.585\<close>
  "borderline request =
     Response True (Labels [(''Real'', 1 / 4), (''Fake'', 658651445502935 / 1125899906842624)])"



text \<open>Two sentences of 12 words each, with one space between them.\<close>

definition twelveTwice :: string where
  "twelveTwice = ''a a a a a a a a a a a a. a a a a a a a a a a a a.''"


section \<open>Facts about the double-precision operations\<close>

lemma pow2_pos: "0 < pow2 k"
  by (simp add: pow2_def)

lemma pow2_Suc: "pow2 (k + 1) = 2 * pow2 k"
  by (simp add: pow2_def power_int_add)

lemma pow2_mono: "a \<le> b \<Longrightarrow> pow2 a \<le> pow2 b"
  by (simp add: pow2_def power_int_increasing)

lemma pow2_less_iff: "pow2 a < pow2 b \<longleftrightarrow> a < b"
  unfolding pow2_def
  by (metis linorder_not_le linorder_not_less one_less_numeral_iff power_int_increasing
      power_int_strict_increasing semiring_norm(76) order_less_imp_le)

lemma bits_nonneg: "0 \<le> bits n"
  by (induction n rule: bits.induct) (subst bits.simps, simp)

lemma bits_bounds:
  "0 < n \<Longrightarrow> pow2 (bits n - 1) \<le> of_int n \<and> of_int n < pow2 (bits n)"
proof (induction n rule: bits.induct)
  case (1 n)
  have b: "bits n = 1 + bits (n div 2)"
    using "1.prems" by (subst bits.simps) simp
  show ?case
  proof (cases "n = 1")
    case True
    have "bits (0::int) = 0" by (subst bits.simps) simp
    with True b show ?thesis by (simp add: pow2_def)
  next
    case False
    with "1.prems" have h: "0 < n div 2" by simp
    with "1.IH" "1.prems" have ih: "pow2 (bits (n div 2) - 1) \<le> of_int (n div 2)"
      "of_int (n div 2) < pow2 (bits (n div 2))" by simp_all
    have lo: "2 * (n div 2) \<le> n" by simp
    have hi: "n < 2 * (n div 2 + 1)" by presburger
    have "pow2 (bits n - 1) = pow2 (bits (n div 2) - 1 + 1)" by (simp add: b)
    also have "\<dots> = 2 * pow2 (bits (n div 2) - 1)" by (rule pow2_Suc)
    also have "\<dots> \<le> 2 * of_int (n div 2)" using ih(1) by simp
    also have "\<dots> = of_int (2 * (n div 2))" by simp
    also have "\<dots> \<le> of_int n" using lo by (simp only: of_int_le_iff)
    finally have A: "pow2 (bits n - 1) \<le> of_int n" .
    have nn: "0 \<le> bits (n div 2)" by (rule bits_nonneg)
    have "pow2 (bits (n div 2)) = of_int (2 ^ nat (bits (n div 2)))"
      using nn by (simp add: pow2_def power_int_def)
    with ih(2) have "n div 2 < 2 ^ nat (bits (n div 2))"
      by (simp only: of_int_less_iff)
    then have "n div 2 + 1 \<le> 2 ^ nat (bits (n div 2))" by simp
    then have "2 * (n div 2 + 1) \<le> 2 * 2 ^ nat (bits (n div 2))" by simp
    with hi have "n < 2 * 2 ^ nat (bits (n div 2))" by simp
    then have "(of_int n :: rat) < of_int (2 * 2 ^ nat (bits (n div 2)))"
      by (simp only: of_int_less_iff)
    also have "\<dots> = 2 * pow2 (bits (n div 2))"
      using nn by (simp add: pow2_def power_int_def)
    also have "\<dots> = pow2 (bits n)" by (simp add: b pow2_Suc [symmetric] add.commute)
    finally show ?thesis using A by simp
  qed
qed

lemma pow2_diff: "pow2 a / pow2 b = pow2 (a - b)"
  by (simp add: pow2_def power_int_diff)

lemma pow2_add: "pow2 (a + b) = pow2 a * pow2 b"
  by (simp add: pow2_def power_int_add)

lemma expo_bounds:
  assumes "0 < x"
  shows "pow2 (expo x) \<le> x \<and> x < pow2 (expo x + 1)"
proof -
  obtain p q where pq: "quotient_of x = (p, q)" by (cases "quotient_of x")
  then have x: "x = of_int p / of_int q" and q: "0 < q"
    by (simp_all add: quotient_of_div quotient_of_denom_pos)
  from assms x q have p: "0 < p"
    by (simp add: zero_less_divide_iff)
  let ?e0 = "bits p - bits q"
  note bp = bits_bounds [OF p] and bq = bits_bounds [OF q]
  have qpos: "(0::rat) < of_int q" using q by simp
  have ppos: "(0::rat) \<le> of_int p" using p by simp
  have "x < pow2 (bits p) / pow2 (bits q - 1)"
    unfolding x using ppos bp bq pow2_pos [of "bits q - 1"] by (intro frac_less) simp_all
  then have up: "x < pow2 (?e0 + 1)"
    by (simp add: pow2_diff algebra_simps)
  have "pow2 (bits p - 1) / pow2 (bits q) < x"
    unfolding x using qpos bp bq pow2_pos [of "bits p - 1"] by (intro frac_less2) simp_all
  then have lo: "pow2 (?e0 - 1) < x"
    by (simp add: pow2_diff algebra_simps)
  have e: "expo x = (if pow2 ?e0 \<le> x then ?e0 else ?e0 - 1)"
    by (simp add: expo_def pq Let_def)
  show ?thesis
  proof (cases "pow2 ?e0 \<le> x")
    case True
    with e up show ?thesis by simp
  next
    case False
    with e lo show ?thesis by simp
  qed
qed

lemma expo_unique:
  assumes "pow2 e \<le> x" and "x < pow2 (e + 1)"
  shows "expo x = e"
proof -
  have "0 < x" using assms(1) pow2_pos [of e] by simp
  then have b: "pow2 (expo x) \<le> x" "x < pow2 (expo x + 1)"
    using expo_bounds by simp_all
  from assms(1) b(2) have "pow2 e < pow2 (expo x + 1)" by simp
  then have "e < expo x + 1" by (simp add: pow2_less_iff)
  moreover from b(1) assms(2) have "pow2 (expo x) < pow2 (e + 1)" by simp
  then have "expo x < e + 1" by (simp add: pow2_less_iff)
  ultimately show ?thesis by simp
qed

lemma roundHalfEven_near:
  assumes "\<bar>r - of_int n\<bar> < 1 / 2"
  shows "roundHalfEven r = n"
proof (cases "of_int n \<le> r")
  case True
  with assms have "\<lfloor>r\<rfloor> = n" by (intro floor_unique) (simp_all add: abs_less_iff)
  with assms True show ?thesis by (simp add: roundHalfEven_def Let_def abs_less_iff)
next
  case False
  with assms have f: "\<lfloor>r\<rfloor> = n - 1" by (intro floor_unique) (simp_all add: abs_less_iff)
  with assms False show ?thesis by (simp add: roundHalfEven_def Let_def abs_less_iff)
qed

lemma fl_pos:
  assumes "pow2 (e + 52) \<le> x" and "x < pow2 (e + 53)"
    and "\<bar>x / pow2 e - of_int m\<bar> < 1 / 2"
  shows "fl x = of_int m * pow2 e"
proof -
  have x: "0 < x" using assms(1) pow2_pos [of "e + 52"] by simp
  have "expo x = e + 52"
    using assms(1,2) by (intro expo_unique) (simp_all add: add.commute add.left_commute)
  with x assms(3) show ?thesis
    by (simp add: fl_def Let_def roundHalfEven_near)
qed

lemma fl_minus: "fl (- x) = - fl x"
  by (simp add: fl_def Let_def)

lemma fl_neg:
  assumes "pow2 (e + 52) \<le> - x" and "- x < pow2 (e + 53)"
    and "\<bar>- x / pow2 e - of_int m\<bar> < 1 / 2"
  shows "fl x = - (of_int m * pow2 e)"
  using fl_pos [OF assms] fl_minus [of x] by simp

lemma fl_int:
  assumes "0 \<le> n" and "n \<le> 2 ^ 53"
  shows "fl (of_int n) = of_int n"
proof (cases "n = 0")
  case True
  then show ?thesis by (simp add: fl_def)
next
  case False
  with assms have n: "0 < n" by simp
  define x :: rat where "x = of_int n"
  have x: "0 < x" using n by (simp add: x_def)
  define e where "e = expo x"
  have b: "pow2 e \<le> x" "x < pow2 (e + 1)"
    using expo_bounds [OF x] by (simp_all add: e_def)
  have "x \<le> pow2 53"
    using assms(2) unfolding x_def pow2_def
    by (metis of_int_le_iff of_int_numeral of_int_power power_int_of_nat of_nat_numeral)
  with b(1) have "pow2 e \<le> pow2 53" by simp
  then have e53: "e \<le> 53"
    using pow2_less_iff [of 53 e] by (simp add: not_less [symmetric])
  have "\<exists>k. x / pow2 (e - 52) = of_int k"
  proof (cases "e \<le> 52")
    case True
    then have "pow2 (e - 52) = 1 / of_int (2 ^ nat (52 - e))"
      by (simp add: pow2_def power_int_def field_simps)
    then have "x / pow2 (e - 52) = of_int (n * 2 ^ nat (52 - e))"
      by (simp add: x_def)
    then show ?thesis by blast
  next
    case False
    with e53 have e: "e = 53" by simp
    with b(1) \<open>x \<le> pow2 53\<close> have "x = pow2 53" by simp
    then have "x / pow2 (e - 52) = of_int (2 ^ 52)"
      by (simp add: e pow2_def)
    then show ?thesis by blast
  qed
  then obtain k where k: "x / pow2 (e - 52) = of_int k" by blast
  have rk: "roundHalfEven (of_int k) = k"
    by (rule roundHalfEven_near) simp
  have q: "pow2 (e - 52) \<noteq> 0" using pow2_pos [of "e - 52"] by simp
  have "fl x = of_int (roundHalfEven (x / pow2 (e - 52))) * pow2 (e - 52)"
    using x by (simp add: fl_def Let_def e_def)
  also have "\<dots> = (x / pow2 (e - 52)) * pow2 (e - 52)"
    by (simp only: k rk)
  also have "\<dots> = x" using q by simp
  finally show ?thesis by (simp add: x_def)
qed

lemma roundHalfEven_tie:
  assumes "r = of_int f + 1 / 2"
  shows "roundHalfEven r = (if even f then f else f + 1)"
proof -
  have "\<lfloor>r\<rfloor> = f" unfolding assms by (intro floor_unique) simp_all
  then show ?thesis by (simp add: roundHalfEven_def Let_def assms)
qed

lemma fl_pos_tie:
  assumes "pow2 (e + 52) \<le> x" and "x < pow2 (e + 53)"
    and "x / pow2 e = of_int f + 1 / 2"
  shows "fl x = of_int (if even f then f else f + 1) * pow2 e"
proof -
  have x: "0 < x" using assms(1) pow2_pos [of "e + 52"] by simp
  have "expo x = e + 52"
    using assms(1,2) by (intro expo_unique) (simp_all add: add.commute add.left_commute)
  with x show ?thesis
    by (simp add: fl_def Let_def roundHalfEven_tie [OF assms(3)])
qed

lemma fl_neg_tie:
  assumes "pow2 (e + 52) \<le> - x" and "- x < pow2 (e + 53)"
    and "- x / pow2 e = of_int f + 1 / 2"
  shows "fl x = - (of_int (if even f then f else f + 1) * pow2 e)"
  using fl_pos_tie [OF assms] fl_minus [of x] by simp

lemma foldl_fadd_nat:
  "a + sum_list (map f xs) \<le> 2 ^ 53 \<Longrightarrow>
     foldl (\<lambda>acc b. fadd acc (of_nat (f b))) (of_nat a) xs = of_nat (a + sum_list (map f xs))"
proof (induction xs arbitrary: a)
  case Nil
  then show ?case by simp
next
  case (Cons x xs)
  have le: "a + f x \<le> 2 ^ 53" using Cons.prems by simp
  then have "int (a + f x) \<le> 2 ^ 53"
    by (metis of_nat_le_iff of_nat_numeral of_nat_power)
  then have "fl (of_int (int (a + f x))) = of_int (int (a + f x))"
    by (intro fl_int) simp_all
  then have step: "fadd (of_nat a) (of_nat (f x)) = of_nat (a + f x)"
    by (simp add: fadd_def)
  have "a + f x + sum_list (map f xs) \<le> 2 ^ 53" using Cons.prems by (simp add: add.assoc)
  from Cons.IH [OF this] show ?case by (simp add: step add.assoc)
qed

text \<open>Rounding moves a number by half a quantum at most.\<close>

lemma roundHalfEven_error: "\<bar>of_int (roundHalfEven r) - r\<bar> \<le> 1 / 2"
proof -
  have "of_int \<lfloor>r\<rfloor> \<le> r" "r < of_int \<lfloor>r\<rfloor> + 1" by linarith+
  then show ?thesis
    by (auto simp: roundHalfEven_def Let_def abs_le_iff)
qed

lemma fl_error:
  assumes "0 < x"
  shows "\<bar>fl x - x\<bar> \<le> pow2 (expo x - 52) / 2"
proof -
  define q where "q = pow2 (expo x - 52)"
  have q: "0 < q" unfolding q_def by (rule pow2_pos)
  have "fl x - x = (of_int (roundHalfEven (x / q)) - x / q) * q"
    using assms q by (simp add: fl_def Let_def q_def [symmetric] field_simps)
  then have "\<bar>fl x - x\<bar> = \<bar>of_int (roundHalfEven (x / q)) - x / q\<bar> * q"
    using q by (simp add: abs_mult)
  also have "\<dots> \<le> 1 / 2 * q"
    using roundHalfEven_error [of "x / q"] q by (intro mult_right_mono) simp_all
  finally show ?thesis by (simp add: q_def)
qed

lemma isqrt_bounds:
  "0 \<le> n \<Longrightarrow> 0 \<le> isqrt n \<and> isqrt n * isqrt n \<le> n \<and> n < (isqrt n + 1) * (isqrt n + 1)"
proof (induction n rule: isqrt.induct)
  case (1 n)
  show ?case
  proof (cases "n < 2")
    case True
    have "isqrt n = n" using True by (subst isqrt.simps) simp
    moreover from True "1.prems" have "n = 0 \<or> n = 1" by auto
    ultimately show ?thesis by auto
  next
    case False
    define r0 where "r0 = isqrt (n div 4)"
    have ih: "0 \<le> r0" "r0 * r0 \<le> n div 4" "n div 4 < (r0 + 1) * (r0 + 1)"
      using "1.IH" False "1.prems" by (simp_all add: r0_def)
    define r where "r = 2 * r0"
    have e: "isqrt n = (if (r + 1) * (r + 1) \<le> n then r + 1 else r)"
      using False by (subst isqrt.simps) (simp add: r_def r0_def Let_def)
    have lo: "r * r \<le> n"
    proof -
      have "r * r = 4 * (r0 * r0)" by (simp add: r_def)
      also have "\<dots> \<le> 4 * (n div 4)" using ih(2) by simp
      also have "\<dots> \<le> n" by simp
      finally show ?thesis .
    qed
    have hi: "n < (r + 2) * (r + 2)"
    proof -
      have "n div 4 + 1 \<le> (r0 + 1) * (r0 + 1)" using ih(3) by simp
      then have "4 * (n div 4 + 1) \<le> 4 * ((r0 + 1) * (r0 + 1))" by simp
      also have "\<dots> = (r + 2) * (r + 2)" by (simp add: r_def algebra_simps)
      finally have "4 * (n div 4) + 4 \<le> (r + 2) * (r + 2)" by simp
      moreover have "n < 4 * (n div 4) + 4" by presburger
      ultimately show ?thesis by simp
    qed
    have rn: "0 \<le> r" using ih(1) by (simp add: r_def)
    show ?thesis
    proof (cases "(r + 1) * (r + 1) \<le> n")
      case True
      with e hi rn show ?thesis by (simp add: algebra_simps)
    next
      case False
      with e lo rn show ?thesis by simp
    qed
  qed
qed


text \<open>
  The model of \<^verbatim>\<open>Math.sqrt\<close> returns a multiple \<open>m\<close> of the quantum \<open>q\<close> of the root's
  binade such that the root lies between \<open>(m - 1/2) q\<close> and \<open>(m + 1/2) q\<close>.
\<close>

lemma fsqrt_nearest:
  assumes pos: "0 < x"
  shows "\<exists>m. fsqrt x = of_int m * pow2 (expo x div 2 - 52) \<and> 1 \<le> m
           \<and> (of_int m - 1 / 2) * (of_int m - 1 / 2)
               * (pow2 (expo x div 2 - 52) * pow2 (expo x div 2 - 52)) \<le> x
           \<and> x \<le> (of_int m + 1 / 2) * (of_int m + 1 / 2)
               * (pow2 (expo x div 2 - 52) * pow2 (expo x div 2 - 52))"
proof -
  define q where "q = pow2 (expo x div 2 - 52)"
  define s where "s = x / (q * q)"
  define n where "n = isqrt \<lfloor>s\<rfloor>"
  define m where "m = (if s < (of_int n + 1 / 2) * (of_int n + 1 / 2) then n
      else if s > (of_int n + 1 / 2) * (of_int n + 1 / 2) then n + 1
      else if even n then n else n + 1)"
  have q: "0 < q" unfolding q_def by (rule pow2_pos)
  have qq: "q * q = pow2 (2 * (expo x div 2) - 104)"
    unfolding q_def pow2_add [symmetric] by (simp add: algebra_simps)
  have "2 * (expo x div 2) \<le> expo x" by presburger
  then have "pow2 (2 * (expo x div 2)) \<le> pow2 (expo x)" by (rule pow2_mono)
  also have "\<dots> \<le> x" using expo_bounds [OF pos] by simp
  finally have "pow2 (2 * (expo x div 2)) / (q * q) \<le> s"
    unfolding s_def using q by (intro divide_right_mono) simp_all
  then have "pow2 104 \<le> s" by (simp add: qq pow2_diff)
  moreover have "(1::rat) \<le> pow2 104" by (simp add: pow2_def)
  ultimately have s1: "1 \<le> s" by simp
  then have f1: "1 \<le> \<lfloor>s\<rfloor>" by (simp add: le_floor_iff)
  then have "0 \<le> \<lfloor>s\<rfloor>" by simp
  from isqrt_bounds [OF this]
  have n: "0 \<le> n" "n * n \<le> \<lfloor>s\<rfloor>" "\<lfloor>s\<rfloor> < (n + 1) * (n + 1)"
    by (simp_all add: n_def)
  have n1: "1 \<le> n"
  proof (rule ccontr)
    assume "\<not> 1 \<le> n"
    with n(1) have "n = 0" by simp
    with n(3) f1 show False by simp
  qed
  have "(of_int (n * n) :: rat) \<le> of_int \<lfloor>s\<rfloor>" using n(2) by (simp only: of_int_le_iff)
  also have "\<dots> \<le> s" by simp
  finally have lo: "of_int n * of_int n \<le> s" by simp
  have "\<lfloor>s\<rfloor> + 1 \<le> (n + 1) * (n + 1)" using n(3) by simp
  then have "(of_int (\<lfloor>s\<rfloor> + 1) :: rat) \<le> of_int ((n + 1) * (n + 1))"
    by (simp only: of_int_le_iff)
  moreover have "s < of_int (\<lfloor>s\<rfloor> + 1)" by linarith
  ultimately have hi: "s < (of_int n + 1) * (of_int n + 1)" by simp
  have rn: "(1::rat) \<le> of_int n" using n1 by simp
  have b: "(of_int m - 1 / 2) * (of_int m - 1 / 2) \<le> s
      \<and> s \<le> (of_int m + 1 / 2) * (of_int m + 1 / 2)"
  proof (cases "m = n")
    case True
    have "(of_int n - 1 / 2) * (of_int n - 1 / 2) \<le> (of_int n * of_int n :: rat)"
      using rn by (simp add: algebra_simps)
    with lo have "(of_int n - 1 / 2) * (of_int n - 1 / 2) \<le> s" by simp
    moreover have "s \<le> (of_int n + 1 / 2) * (of_int n + 1 / 2)"
      using True by (auto simp: m_def split: if_splits)
    ultimately show ?thesis using True by simp
  next
    case False
    then have m: "m = n + 1" and ge: "(of_int n + 1 / 2) * (of_int n + 1 / 2) \<le> s"
      by (auto simp: m_def split: if_splits)
    have "(of_int n + 1) * (of_int n + 1) \<le> (of_int n + 3 / 2) * (of_int n + 3 / 2 :: rat)"
      using rn by (simp add: algebra_simps)
    with hi have "s \<le> (of_int n + 3 / 2) * (of_int n + 3 / 2)" by simp
    with ge show ?thesis by (simp add: m algebra_simps)
  qed
  have xs: "x = s * (q * q)" unfolding s_def using q by simp
  have nle: "\<not> x \<le> 0" using pos by simp
  have f: "fsqrt x = of_int m * q"
    unfolding fsqrt_def Let_def m_def n_def s_def q_def
    by (simp only: nle if_False)
  have m1: "1 \<le> m" using n1 by (auto simp: m_def)
  have "(of_int m - 1 / 2) * (of_int m - 1 / 2) * (q * q) \<le> s * (q * q)"
    using b q by (intro mult_right_mono) simp_all
  moreover have "s * (q * q) \<le> (of_int m + 1 / 2) * (of_int m + 1 / 2) * (q * q)"
    using b q by (intro mult_right_mono) simp_all
  ultimately show ?thesis using f m1 xs unfolding q_def by auto
qed

section \<open>Facts about the pattern detector\<close>

lemma startsWith_iff: "startsWith s p \<longleftrightarrow> (\<exists>post. s = p @ post)"
  by (induction s p rule: startsWith.induct) auto

lemma includes_str_iff: "includes_str s p \<longleftrightarrow> (\<exists>pre post. s = pre @ p @ post)"
proof (induction s)
  case Nil
  then show ?case by simp
next
  case (Cons c cs)
  show ?case
  proof
    assume "includes_str (c # cs) p"
    then consider "startsWith (c # cs) p" | "includes_str cs p" by auto
    then show "\<exists>pre post. c # cs = pre @ p @ post"
    proof cases
      case 1
      then obtain post where "c # cs = p @ post" by (auto simp: startsWith_iff)
      then have "c # cs = [] @ p @ post" by simp
      then show ?thesis by blast
    next
      case 2
      with Cons.IH obtain pre post where "cs = pre @ p @ post" by auto
      then have "c # cs = (c # pre) @ p @ post" by simp
      then show ?thesis by blast
    qed
  next
    assume "\<exists>pre post. c # cs = pre @ p @ post"
    then obtain pre post where eq: "c # cs = pre @ p @ post" by auto
    show "includes_str (c # cs) p"
    proof (cases pre)
      case Nil
      with eq have "startsWith (c # cs) p" by (auto simp: startsWith_iff)
      then show ?thesis by simp
    next
      case (Cons a pre')
      with eq have "cs = pre' @ p @ post" by simp
      with Cons.IH have "includes_str cs p" by blast
      then show ?thesis by simp
    qed
  qed
qed

lemma includes_occursIn: "includes_str (toLowerCase text) (toLowerCase p) = occursIn p text"
  by (simp add: includes_str_iff occursIn_def)

lemma scan_foldl:
  "foldl (\<lambda>(foundCount, foundPhrases) p.
            if f p then (foundCount + 1, foundPhrases @ [p]) else (foundCount, foundPhrases))
         (n, acc) ps
   = (n + length (filter f ps), acc @ filter f ps)"
  by (induction ps arbitrary: n acc) auto

lemma scanPhrases_eq:
  "scanPhrases (toLowerCase text) = (length (matchedPhrases text), matchedPhrases text)"
  unfolding scanPhrases_def matchedPhrases_def
  by (simp add: scan_foldl includes_occursIn)

lemma distinct_aiPhrases: "distinct aiPhrases"
  unfolding aiPhrases_def by simp

lemma card_matched:
  "card {p \<in> set aiPhrases. occursIn p text} = length (matchedPhrases text)"
proof -
  have "{p \<in> set aiPhrases. occursIn p text} = set (matchedPhrases text)"
    by (auto simp: matchedPhrases_def)
  moreover have "distinct (matchedPhrases text)"
    unfolding matchedPhrases_def using distinct_aiPhrases by (rule distinct_filter)
  ultimately show ?thesis by (simp add: distinct_card)
qed

lemma checkAIPatterns_eq:
  "checkAIPatterns text =
     (if length (matchedPhrases text) > 0
      then \<lparr> score = (if length (matchedPhrases text) > 1 then 98 else 65),
             reason = ''Detected AI-typical phrasing: '' @ dquote
                      @ join (dquote @ '', '' @ dquote) (take 3 (matchedPhrases text))
                      @ dquote \<rparr>
      else \<lparr> score = 0, reason = [] \<rparr>)"
  unfolding checkAIPatterns_def Let_def scanPhrases_eq by simp

lemma pattern_score_eq:
  "score (checkAIPatterns text) =
     (if length (matchedPhrases text) = 0 then 0
      else if length (matchedPhrases text) = 1 then 65 else 98)"
proof -
  define n where "n = length (matchedPhrases text)"
  have "(if n > 0 then (if n > 1 then 98 else 65) else 0)
      = (if n = 0 then 0 else if n = 1 then (65 :: int) else 98)"
    by auto
  then show ?thesis unfolding checkAIPatterns_eq n_def by (simp split: if_splits)
qed

lemma pattern_reason_eq:
  "reason (checkAIPatterns text) =
     (if length (matchedPhrases text) = 0 then []
      else ''Detected AI-typical phrasing: '' @ dquote
           @ join (dquote @ '', '' @ dquote) (take 3 (matchedPhrases text)) @ dquote)"
  unfolding checkAIPatterns_eq by (cases "length (matchedPhrases text) = 0") auto

lemma pattern_scores: "score (checkAIPatterns text) \<in> {0, 65, 98}"
  by (simp add: pattern_score_eq)

text \<open>
  Claim C4. The pattern detector scores by the number of distinct blacklisted phrases
  that occur in the text as case-insensitive substrings: none gives score 0 (and the
  empty reason), exactly one gives 65, two or more give 98; when it scores, its reason
  quotes the first three matched phrases at most, each of them a matched phrase, verbatim.
\<close>

theorem checkAIPatterns_policy:
  "score (checkAIPatterns text) =
     (if card {p \<in> set aiPhrases. occursIn p text} = 0 then 0
      else if card {p \<in> set aiPhrases. occursIn p text} = 1 then 65 else 98)
   \<and> reason (checkAIPatterns text) =
     (if card {p \<in> set aiPhrases. occursIn p text} = 0 then []
      else ''Detected AI-typical phrasing: '' @ dquote
           @ join (dquote @ '', '' @ dquote) (take 3 (matchedPhrases text)) @ dquote)
   \<and> length (take 3 (matchedPhrases text)) \<le> 3
   \<and> set (take 3 (matchedPhrases text)) \<subseteq> {p \<in> set aiPhrases. occursIn p text}"
proof -
  have sub: "set (take 3 (matchedPhrases text)) \<subseteq> {p \<in> set aiPhrases. occursIn p text}"
  proof
    fix p assume "p \<in> set (take 3 (matchedPhrases text))"
    then have "p \<in> set (matchedPhrases text)" by (rule in_set_takeD)
    then show "p \<in> {p \<in> set aiPhrases. occursIn p text}"
      by (simp add: matchedPhrases_def)
  qed
  from pattern_score_eq [of "text"] pattern_reason_eq [of "text"] sub show ?thesis
    unfolding card_matched by simp
qed

text \<open>The policy at a text with two of the phrases.\<close>

lemma scan_thus_however:
  "scanPhrases (toLowerCase ''Thus, however.'') = (2, [''however'', ''thus''])"
  by code_simp

theorem checkAIPatterns_policy_witness:
  "card {p \<in> set aiPhrases. occursIn p ''Thus, however.''} = 2
   \<and> score (checkAIPatterns ''Thus, however.'') = 98
   \<and> reason (checkAIPatterns ''Thus, however.'') =
       ''Detected AI-typical phrasing: '' @ dquote @ ''however'' @ dquote @ '', '' @ dquote
       @ ''thus'' @ dquote"
proof -
  have m: "matchedPhrases ''Thus, however.'' = [''however'', ''thus'']"
    using scanPhrases_eq [of "''Thus, however.''"] scan_thus_however by simp
  have c: "card {p \<in> set aiPhrases. occursIn p ''Thus, however.''} = 2"
    unfolding card_matched m by simp
  from checkAIPatterns_policy [of "''Thus, however.''"] show ?thesis
    unfolding c m by simp
qed

section \<open>Facts about the statistical detector\<close>

lemma split_sp_nonempty: "split_sp s \<noteq> []"
  by (induction s) (auto split: list.splits)

lemma sentences_nonempty: "sentences text \<noteq> []"
  by (simp add: sentences_def Let_def)

lemma lengths_nonempty: "lengths text \<noteq> []"
  by (simp add: lengths_def sentences_nonempty)

lemma words_nonempty: "words text \<noteq> []"
  by (simp add: words_def split_sp_nonempty)

lemma stat_score_eq:
  "score (localStatisticalAnalysis text) =
     min 100
       (20
        + (if 12 < avgLen text \<and> avgLen text < 28 then 20 else 0)
        + (if burstiness text < 6 then 55 else if burstiness text < 12 then 30 else 0)
        + (if 5 < avgWordLen text then 10 else 0))"
  unfolding localStatisticalAnalysis_def Let_def by simp

lemma stat_bounds:
  "20 \<le> score (localStatisticalAnalysis text) \<and> score (localStatisticalAnalysis text) \<le> 100"
  by (simp add: localStatisticalAnalysis_def Let_def)

lemma avgWordLen_eq:
  assumes "sum_list (map length (words text)) \<le> 2 ^ 53"
  shows "avgWordLen text =
           fdiv (of_nat (sum_list (map length (words text)))) (of_nat (length (words text)))"
  using foldl_fadd_nat [of 0 length "words text"] assms by (simp add: avgWordLen_def)

lemma sqrt_less_6: "sqrt v < 6 \<longleftrightarrow> v < 36"
proof -
  have "sqrt 36 = 6" by (rule real_sqrt_unique) simp_all
  then show ?thesis using real_sqrt_less_iff [of v 36] by simp
qed


subsection \<open>The statistics of three lists of counts, step by step\<close>

lemma stats_12_13:
  assumes L: "lengths text = [12, 13]"
  shows "avgLen text = 25 / 2"
    and "variance text = 1 / 4"
proof -
  have s: "foldl (\<lambda>a b. fadd a (of_nat b)) 0 (lengths text) = 25"
    unfolding L using foldl_fadd_nat [of 0 "\<lambda>b. b" "[12, 13]"] by simp
  have q: "fdiv 25 2 = 25 / 2"
    unfolding fdiv_def using fl_pos [of "- 49" "25 / 2" "7036874417766400"]
    by (simp add: pow2_def)
  show a: "avgLen text = 25 / 2"
    unfolding avgLen_def s unfolding L using q by simp
  have d12: "fsub 12 (25 / 2)
      = - (1 / 2)"
    unfolding fsub_def
    using fl_neg [of "- 53"
        "12 - 25 / 2"
        "4503599627370496"]
    by (simp add: pow2_def)
  have m12: "fmul (- (1 / 2)) (- (1 / 2))
      = 1 / 4"
    unfolding fmul_def
    using fl_pos [of "- 54"
        "(- (1 / 2)) * (- (1 / 2))"
        "4503599627370496"]
    by (simp add: pow2_def)
  have d13: "fsub 13 (25 / 2)
      = 1 / 2"
    unfolding fsub_def
    using fl_pos [of "- 53"
        "13 - 25 / 2"
        "4503599627370496"]
    by (simp add: pow2_def)
  have m13: "fmul (1 / 2) (1 / 2)
      = 1 / 4"
    unfolding fmul_def
    using fl_pos [of "- 54"
        "(1 / 2) * (1 / 2)"
        "4503599627370496"]
    by (simp add: pow2_def)
  have c0: "fadd 0 (1 / 4)
      = 1 / 4"
    unfolding fadd_def
    using fl_pos [of "- 54"
        "0 + 1 / 4"
        "4503599627370496"]
    by (simp add: pow2_def)
  have c1: "fadd (1 / 4) (1 / 4)
      = 1 / 2"
    unfolding fadd_def
    using fl_pos [of "- 53"
        "1 / 4 + 1 / 4"
        "4503599627370496"]
    by (simp add: pow2_def)
  have v: "fdiv (1 / 2) 2
      = 1 / 4"
    unfolding fdiv_def
    using fl_pos [of "- 54"
        "1 / 2 / 2"
        "4503599627370496"]
    by (simp add: pow2_def)
  show "variance text = 1 / 4"
    unfolding variance_def a unfolding L
    by (simp add: fsquare_def d12 m12 d13 m13 c0 c1 v)
qed



lemma fdiv_26_24: "fdiv 26 24
    = 4878899596318037 / 4503599627370496"
  unfolding fdiv_def
  using fl_pos [of "- 52"
      "26 / 24"
      "4878899596318037"]
  by (simp add: pow2_def)




lemma fsqrt_quarter: "fsqrt (1 / 4) = 1 / 2"
  by code_simp



subsection \<open>Two sentences of 12 words\<close>

lemma twelveTwice_lengths: "lengths twelveTwice = [12, 13]"
  by code_simp

lemma twelveTwice_wordCounts: "wordCounts twelveTwice = [12, 12]"
  by code_simp

lemma twelveTwice_words:
  "map length (words twelveTwice) = replicate 11 1 @ 2 # replicate 11 1 @ [2]"
  by code_simp

lemma twelveTwice_wordsOf:
  "map length (wordsOf (cleanText twelveTwice)) = replicate 11 1 @ 2 # replicate 11 1 @ [2]"
  by code_simp

lemma twelveTwice_avgWordLen: "avgWordLen twelveTwice = 4878899596318037 / 4503599627370496"
proof -
  have l: "length (words twelveTwice) = 24"
    using arg_cong [OF twelveTwice_words, of length] by simp
  have s: "sum_list (map length (words twelveTwice)) = 26"
    by (simp add: twelveTwice_words sum_list_replicate)
  show ?thesis
    using avgWordLen_eq [of twelveTwice] by (simp add: l s fdiv_26_24)
qed

text \<open>
  Claim C3. The statistical detector returns a verdict for every text, and its score is
  the base 20, plus 20 when the mean number of words per sentence is strictly between
  12 and 28, plus 55 or 30 by the standard deviation of these numbers, plus 10 for long
  words, capped at 100. The code does not count words: it counts the space-separated
  pieces of each matched sentence, and a sentence that follows a space starts with an
  empty piece. For two sentences of 12 words the counts are 12 and 13, the mean is
  12.5 and the 20 is added: the score is 95 where the specified score is 75.
\<close>

theorem statistical_counts_pieces:
  "lengths twelveTwice = [12, 13]
   \<and> wordCounts twelveTwice = [12, 12]
   \<and> avgLen twelveTwice = 25 / 2
   \<and> mean (wordCounts twelveTwice) = 12
   \<and> score (localStatisticalAnalysis twelveTwice) = 95
   \<and> specifiedScore twelveTwice = 75"
proof -
  note st = stats_12_13 [OF twelveTwice_lengths]
  have b: "burstiness twelveTwice = 1 / 2"
    by (simp add: burstiness_def st fsqrt_quarter)
  have code: "score (localStatisticalAnalysis twelveTwice) = 95"
    unfolding stat_score_eq by (simp add: st b twelveTwice_avgWordLen)
  have m: "mean (wordCounts twelveTwice) = 12"
    by (simp add: mean_def twelveTwice_wordCounts)
  have sd: "stddev (wordCounts twelveTwice) = 0"
    unfolding stddev_def m unfolding twelveTwice_wordCounts by simp
  have w: "mean (map length (wordsOf (cleanText twelveTwice))) = 26 / 24"
    by (simp add: mean_def twelveTwice_wordsOf sum_list_replicate)
  have spec: "specifiedScore twelveTwice = 75"
    unfolding specifiedScore_def m sd w by simp
  show ?thesis
    using code spec m by (simp add: twelveTwice_lengths twelveTwice_wordCounts st)
qed

section \<open>Facts about the remote-ensemble detector\<close>

lemma considerA:
  "considerModel labelA name ok b (0, []) =
     (if endpointThrows (Response ok b) then Inl (if b = NotJson then SyntaxError else TypeError)
      else Inr (if aiProbability labelA (Response ok b) > 0
                then (aiProbability labelA (Response ok b), name) else (0, [])))"
  by (cases ok; cases b)
     (auto simp: considerModel_def fakeOf_def endpointThrows_def aiProbability_def)

lemma considerB:
  "considerModel labelB name ok b st =
     (if endpointThrows (Response ok b) then Inl (if b = NotJson then SyntaxError else TypeError)
      else Inr (if ok \<and> aiProbability labelB (Response ok b) > fst st
                then (aiProbability labelB (Response ok b), name) else st))"
  by (cases ok; cases b; cases st)
     (auto simp: considerModel_def fakeOf_def endpointThrows_def aiProbability_def)

lemma notok_prob: "\<not> ok \<Longrightarrow> aiProbability l (Response ok b) = 0"
  by (cases b) (simp_all add: aiProbability_def)

lemma detectAI_responses:
  "detectAI fetchA fetchB text =
     (let a = fetchA (take 510 text);
          b = fetchB (take 510 text);
          p = max (aiProbability labelA a) (aiProbability labelB b)
      in if endpointThrows a \<or> endpointThrows b then None
         else if p > 1 / 2
         then Some \<lparr> score = round (fmul p 100),
                     reason = ''Deep Learning analysis flagged AI patterns.'',
                     source = (if aiProbability labelB b > aiProbability labelA a
                               then ''ChatGPT Detector'' else ''RoBERTa Model'') \<rparr>
         else None)"
proof (cases "fetchA (take 510 text)")
  case Rejected
  then show ?thesis by (simp add: detectAI_def endpointThrows_def)
next
  case a: (Response okA bodyA)
  show ?thesis
  proof (cases "fetchB (take 510 text)")
    case Rejected
    with a show ?thesis by (simp add: detectAI_def endpointThrows_def)
  next
    case b: (Response okB bodyB)
    show ?thesis
    proof (cases "endpointThrows (Response okA bodyA) \<or> endpointThrows (Response okB bodyB)")
      case True
      then show ?thesis
        unfolding detectAI_def a b
        by (auto simp: considerA considerB Let_def)
    next
      case nf: False
      show ?thesis
      proof (cases okB)
        case True
        with nf show ?thesis
          unfolding detectAI_def a b
          by (auto simp: considerA considerB Let_def max_def)
      next
        case False
        then have "aiProbability labelB (Response okB bodyB) = 0"
          by (rule notok_prob)
        with nf False show ?thesis
          unfolding detectAI_def a b
          by (auto simp: considerA considerB Let_def max_def)
      qed
    qed
  qed
qed

lemma fmul_flagging: "fmul (7 / 8) 100
    = 175 / 2"
  unfolding fmul_def
  using fl_pos [of "- 46"
      "7 / 8 * 100"
      "6157265115545600"]
  by (simp add: pow2_def)

lemma fmul_borderline: "fmul (658651445502935 / 1125899906842624) 100
    = 117 / 2"
  unfolding fmul_def
  using fl_pos_tie [of "- 47"
      "658651445502935 / 1125899906842624 * 100"
      "8233143068786687"]
  by (simp add: pow2_def)

lemma example_probabilities:
  "aiProbability labelA (doubting r) = 3 / 8"
  "aiProbability labelB (doubting r) = 3 / 8"
  "aiProbability labelB (flagging r) = 7 / 8"
  "aiProbability labelA (unavailable r) = 0"
  "aiProbability labelA (borderline r) = 658651445502935 / 1125899906842624"
  by (simp_all add: aiProbability_def doubting_def flagging_def unavailable_def
      borderline_def labelA_def labelB_def)

lemma example_throws:
  "\<not> endpointThrows (doubting r)" "\<not> endpointThrows (flagging r)"
  "endpointThrows (garbled r)" "endpointThrows (offline r)"
  "\<not> endpointThrows (unavailable r)" "\<not> endpointThrows (borderline r)"
  by (simp_all add: endpointThrows_def doubting_def flagging_def garbled_def offline_def
      unavailable_def borderline_def)

text \<open>
  Claim C7 says that the detector returns no verdict on any network or parsing failure
  of either endpoint, and that the score of a verdict is the probability times 100,
  rounded. It fails twice. An endpoint that answers with an error status has failed,
  yet the detector skips it and returns the verdict of the other endpoint. And the
  score is the rounding of the double product: at the double nearest to 0.585 the
  product is the double 58.5 and the score 59, where the probability times 100 is
  below 58.5 and rounds to 58.
\<close>

theorem detectAI_policy_counterexample:
  "endpointFailed (unavailable (take 510 ''Some text.''))
   \<and> detectAI unavailable flagging ''Some text.'' =
       Some \<lparr> score = 88, reason = ''Deep Learning analysis flagged AI patterns.'',
              source = ''ChatGPT Detector'' \<rparr>
   \<and> aiProbability labelA (borderline (take 510 ''Some text.'')) = 658651445502935 / 1125899906842624
   \<and> aiProbability labelB (doubting (take 510 ''Some text.'')) = 3 / 8
   \<and> round ((658651445502935 / 1125899906842624 :: rat) * 100) = 58
   \<and> detectAI borderline doubting ''Some text.'' =
       Some \<lparr> score = 59, reason = ''Deep Learning analysis flagged AI patterns.'',
              source = ''RoBERTa Model'' \<rparr>"
proof -
  have f: "endpointFailed (unavailable (take 510 ''Some text.''))"
    by (simp add: endpointFailed_def unavailable_def)
  have r1: "round (175 / 2 :: rat) = 88" by (simp add: round_def)
  have r2: "round (117 / 2 :: rat) = 59" by (simp add: round_def)
  have r3: "round ((658651445502935 / 1125899906842624 :: rat) * 100) = 58"
    unfolding round_def by (intro floor_unique) simp_all
  have d1: "detectAI unavailable flagging ''Some text.'' =
       Some \<lparr> score = 88, reason = ''Deep Learning analysis flagged AI patterns.'',
              source = ''ChatGPT Detector'' \<rparr>"
    unfolding detectAI_responses Let_def
    by (simp add: example_probabilities example_throws fmul_flagging r1)
  have d2: "detectAI borderline doubting ''Some text.'' =
       Some \<lparr> score = 59, reason = ''Deep Learning analysis flagged AI patterns.'',
              source = ''RoBERTa Model'' \<rparr>"
    unfolding detectAI_responses Let_def
    by (simp add: example_probabilities example_throws fmul_borderline r2)
  show ?thesis
    using f r3 d1 d2 by (simp add: example_probabilities)
qed

text \<open>
  Claim C7, amended. The detector sends the first 510 characters of the text to both
  endpoints. It returns no verdict when a request is rejected, or when a body it reads
  is not JSON or makes the extraction throw. Otherwise it takes the larger of the two
  AI-label probabilities, where an answer with an error status, or without the label,
  counts as 0, and returns a verdict exactly when that exceeds one half; the score is
  the double product of the probability and 100, rounded. The result is an optional
  verdict in every case: no error escapes.
\<close>

theorem detectAI_policy:
  "detectAI fetchA fetchB text =
     (let a = fetchA (take 510 text);
          b = fetchB (take 510 text);
          p = max (aiProbability labelA a) (aiProbability labelB b)
      in if endpointThrows a \<or> endpointThrows b then None
         else if p > 1 / 2
         then Some \<lparr> score = round (fmul p 100),
                     reason = ''Deep Learning analysis flagged AI patterns.'',
                     source = (if aiProbability labelB b > aiProbability labelA a
                               then ''ChatGPT Detector'' else ''RoBERTa Model'') \<rparr>
         else None)"
  by (rule detectAI_responses)

text \<open>
  The policy at four pairs of answers: a flagged text, a text neither endpoint flags, a
  body that does not parse, and a rejected request.
\<close>

theorem detectAI_policy_witness:
  "detectAI doubting flagging ''Some text.'' =
     Some \<lparr> score = 88, reason = ''Deep Learning analysis flagged AI patterns.'',
            source = ''ChatGPT Detector'' \<rparr>
   \<and> detectAI doubting doubting ''Some text.'' = None
   \<and> detectAI garbled flagging ''Some text.'' = None
   \<and> detectAI flagging offline ''Some text.'' = None"
proof -
  have r: "round (175 / 2 :: rat) = 88" by (simp add: round_def)
  from detectAI_policy [of doubting flagging "''Some text.''"]
    detectAI_policy [of doubting doubting "''Some text.''"]
    detectAI_policy [of garbled flagging "''Some text.''"]
    detectAI_policy [of flagging offline "''Some text.''"]
  show ?thesis
    unfolding Let_def by (simp add: example_probabilities example_throws fmul_flagging r)
qed

section \<open>Facts about the score resolver\<close>

lemma resolved_eq:
  "resolved fetchA fetchB text =
     (if score (checkAIPatterns text) > 50
      then (score (checkAIPatterns text), reason (checkAIPatterns text))
      else (case detectAI fetchA fetchB text of
              Some c \<Rightarrow>
                if score c > score (localStatisticalAnalysis text) then (score c, reason c)
                else (score (localStatisticalAnalysis text),
                      reason (localStatisticalAnalysis text))
            | None \<Rightarrow> (score (localStatisticalAnalysis text),
                       reason (localStatisticalAnalysis text))))"
  by (simp add: resolved_def resolveVerdict_def Let_def)

lemma performAnalysis_eq:
  "performAnalysis fetchA fetchB text =
     \<lparr> aiPercentage = finalClamp (fst (resolved fetchA fetchB text)),
       reasoning = snd (resolved fetchA fetchB text),
       aiSegments = [\<lparr> segText = text,
                       isAi = (finalClamp (fst (resolved fetchA fetchB text)) > 50) \<rparr>] \<rparr>"
  by (simp add: performAnalysis_def Let_def split: prod.splits)

lemma resolved_ge_20: "20 \<le> fst (resolved fetchA fetchB text)"
proof (cases "score (checkAIPatterns text) > 50")
  case True
  then show ?thesis by (simp add: resolved_eq)
next
  case False
  then show ?thesis
    using stat_bounds [of "text"] by (simp add: resolved_eq split: option.splits)
qed

lemma pattern_wins_unclamped:
  "score (checkAIPatterns text) > 50 \<Longrightarrow>
     finalClamp (fst (resolved fetchA fetchB text)) = score (checkAIPatterns text)"
  using pattern_scores [of "text"] by (auto simp: resolved_eq finalClamp_def)

text \<open>
  Claim C1. The resolver picks one verdict by strict priority and never averages: the
  pattern detector's score and reason when its score exceeds 50; otherwise the remote
  verdict's when there is one and its score exceeds the statistical detector's;
  otherwise the statistical detector's. The reason shown is the picked one, the
  percentage shown is the picked score after the final clamps, and a winning pattern
  score is shown as it is.
\<close>

theorem resolver_priority:
  "resolved fetchA fetchB text =
     (if score (checkAIPatterns text) > 50
      then (score (checkAIPatterns text), reason (checkAIPatterns text))
      else (case detectAI fetchA fetchB text of
              Some c \<Rightarrow>
                if score c > score (localStatisticalAnalysis text) then (score c, reason c)
                else (score (localStatisticalAnalysis text),
                      reason (localStatisticalAnalysis text))
            | None \<Rightarrow> (score (localStatisticalAnalysis text),
                       reason (localStatisticalAnalysis text))))
   \<and> resolved fetchA fetchB text \<in>
       {(score (checkAIPatterns text), reason (checkAIPatterns text)),
        (score (localStatisticalAnalysis text), reason (localStatisticalAnalysis text))}
       \<union> (case detectAI fetchA fetchB text of
            None \<Rightarrow> {} | Some c \<Rightarrow> {(score c, reason c)})
   \<and> reasoning (performAnalysis fetchA fetchB text) = snd (resolved fetchA fetchB text)
   \<and> aiPercentage (performAnalysis fetchA fetchB text) =
       (if score (checkAIPatterns text) > 50 then score (checkAIPatterns text)
        else finalClamp (fst (resolved fetchA fetchB text)))"
proof -
  have one: "resolved fetchA fetchB text \<in>
       {(score (checkAIPatterns text), reason (checkAIPatterns text)),
        (score (localStatisticalAnalysis text), reason (localStatisticalAnalysis text))}
       \<union> (case detectAI fetchA fetchB text of
            None \<Rightarrow> {} | Some c \<Rightarrow> {(score c, reason c)})"
    by (simp add: resolved_eq split: option.splits)
  show ?thesis
    using resolved_eq [of fetchA fetchB "text"] one
      pattern_wins_unclamped [of "text" fetchA fetchB]
    by (simp add: performAnalysis_eq)
qed

text \<open>
  Claim C2. After the resolver has picked, a score below 10 becomes 15, a score above
  99 becomes 99, and any other score is left as it is; the percentage shown is the
  picked score after these clamps.
\<close>

theorem final_clamps:
  "finalClamp s = (if s < 10 then 15 else if s > 99 then 99 else s)
   \<and> aiPercentage (performAnalysis fetchA fetchB text) =
       (if fst (resolved fetchA fetchB text) < 10 then 15
        else if fst (resolved fetchA fetchB text) > 99 then 99
        else fst (resolved fetchA fetchB text))"
  by (simp add: performAnalysis_eq finalClamp_def Let_def)

text \<open>
  Claim C8. The analysis has exactly one segment; its text is the whole input and it
  is flagged as AI exactly when the percentage shown exceeds 50.
\<close>

theorem single_segment:
  "aiSegments (performAnalysis fetchA fetchB text) =
     [\<lparr> segText = text, isAi = (aiPercentage (performAnalysis fetchA fetchB text) > 50) \<rparr>]"
  by (simp add: performAnalysis_eq)

text \<open>
  Claim C10. The percentage shown lies between 20 and 99: every score the resolver can
  pick is at least 20, so the branch that raises a score below 10 to 15 never runs.
\<close>

theorem aiPercentage_range:
  "20 \<le> aiPercentage (performAnalysis fetchA fetchB text)
   \<and> aiPercentage (performAnalysis fetchA fetchB text) \<le> 99
   \<and> 20 \<le> fst (resolved fetchA fetchB text)
   \<and> \<not> fst (resolved fetchA fetchB text) < 10"
  using resolved_ge_20 [of fetchA fetchB "text"]
  by (simp add: performAnalysis_eq finalClamp_def Let_def)

section \<open>The statistical base at the boundary\<close>







subsection \<open>The text of long words\<close>








subsection \<open>The text of short words\<close>





subsection \<open>The text at the boundary\<close>











section \<open>Facts about the extraction cascade\<close>

lemma length_trim_le: "length (trim t) \<le> length t"
proof -
  have "length (trim t) \<le> length (rev (dropWhile isWhiteSpace t))"
    unfolding trim_def
    using length_dropWhile_le [of isWhiteSpace "rev (dropWhile isWhiteSpace t)"] by simp
  also have "\<dots> \<le> length t"
    using length_dropWhile_le [of isWhiteSpace t] by simp
  finally show ?thesis .
qed

lemma usable_length: "usable (Produced t) \<Longrightarrow> 5 \<le> length t"
  using length_trim_le [of t] by (simp add: usable_def)

lemma invoked_cases:
  "invoked (runCascade r1 r2 r3) =
     (if length (textOf r1) < 5
      then (if length (case r2 of Produced t \<Rightarrow> t | Failed \<Rightarrow> textOf r1) < 5
            then [TrOCR, OcrSpace, Tesseract] else [TrOCR, OcrSpace])
      else [TrOCR])"
  by (cases r1; cases r2; cases r3)
     (auto simp: runCascade_def strategy1_def strategy2_def strategy3_def needsNext_def
        textOf_def Let_def)

lemma extracted_cases:
  "extracted (runCascade r1 r2 r3) =
     (if length (textOf r1) < 5
      then (if length (case r2 of Produced t \<Rightarrow> t | Failed \<Rightarrow> textOf r1) < 5
            then (case r3 of Produced t \<Rightarrow> t
                  | Failed \<Rightarrow> (case r2 of Produced t \<Rightarrow> t | Failed \<Rightarrow> textOf r1))
            else (case r2 of Produced t \<Rightarrow> t | Failed \<Rightarrow> textOf r1))
      else textOf r1)"
  by (cases r1; cases r2; cases r3)
     (auto simp: runCascade_def strategy1_def strategy2_def strategy3_def needsNext_def
        textOf_def Let_def)

lemma trim_Nil: "trim [] = []"
  by (simp add: trim_def)

lemma startScan_eq:
  "startScan fetchA fetchB r1 r2 r3 =
     (if trim (extracted (runCascade r1 r2 r3)) = [] then Inl CouldNotExtract
      else Inr (extracted (runCascade r1 r2 r3),
                performAnalysis fetchA fetchB (extracted (runCascade r1 r2 r3))))"
  using trim_Nil by (auto simp: startScan_def Let_def)

text \<open>
  Claim C5. The strategies run in their fixed order and the cascade stops at the first
  success: the remote general OCR runs only if the handwriting transformer produced no
  usable text, the local OCR only if neither of the two did, and after a text of 6
  characters from the first strategy the other two are not invoked.
\<close>

theorem cascade_order:
  "invoked (runCascade r1 r2 r3) \<in> {[TrOCR], [TrOCR, OcrSpace], [TrOCR, OcrSpace, Tesseract]}
   \<and> (OcrSpace \<in> set (invoked (runCascade r1 r2 r3)) \<longrightarrow> \<not> usable r1)
   \<and> (Tesseract \<in> set (invoked (runCascade r1 r2 r3)) \<longrightarrow> \<not> usable r1 \<and> \<not> usable r2)
   \<and> (usable r1 \<longrightarrow> invoked (runCascade r1 r2 r3) = [TrOCR])
   \<and> (usable r2 \<longrightarrow> Tesseract \<notin> set (invoked (runCascade r1 r2 r3)))
   \<and> (length t = 6 \<longrightarrow> invoked (runCascade (Produced t) r2 r3) = [TrOCR])"
proof -
  have u1: "usable r1 \<Longrightarrow> 5 \<le> length (textOf r1)"
    using usable_length by (cases r1) (auto simp: textOf_def usable_def)
  have u2: "usable r2 \<Longrightarrow> 5 \<le> length (case r2 of Produced t \<Rightarrow> t | Failed \<Rightarrow> textOf r1)"
    using usable_length by (cases r2) (auto simp: usable_def)
  show ?thesis
    using u1 u2 by (auto simp: invoked_cases textOf_def)
qed

theorem cascade_order_witness:
  "usable (Produced ''abcdef'') \<and> length ''abcdef'' = 6
   \<and> invoked (runCascade (Produced ''abcdef'') (Produced ''second text'') (Produced ''third text''))
       = [TrOCR]
   \<and> OcrSpace \<in> set (invoked (runCascade (Produced ''ab'') (Produced ''second text'') Failed))
   \<and> \<not> usable (Produced ''ab'')
   \<and> usable (Produced ''second text'')
   \<and> Tesseract \<notin> set (invoked (runCascade (Produced ''ab'') (Produced ''second text'') Failed))
   \<and> Tesseract \<in> set (invoked (runCascade Failed (Produced ''cd'') (Produced ''third text'')))
   \<and> \<not> usable Failed \<and> \<not> usable (Produced ''cd'')"
proof -
  have h1: "usable (Produced ''abcdef'')"
    by (simp add: usable_def trim_def isWhiteSpace_def)
  have h2: "usable (Produced ''second text'')"
    by (simp add: usable_def trim_def isWhiteSpace_def)
  have h3: "length ''abcdef'' = 6" by simp
  have i2: "OcrSpace \<in> set (invoked (runCascade (Produced ''ab'') (Produced ''second text'') Failed))"
    by (simp add: invoked_cases textOf_def)
  have i3: "Tesseract \<in> set (invoked (runCascade Failed (Produced ''cd'') (Produced ''third text'')))"
    by (simp add: invoked_cases textOf_def)
  note a = cascade_order [of "Produced ''abcdef''" "Produced ''second text''"
      "Produced ''third text''" "''abcdef''"]
  note b = cascade_order [of "Produced ''ab''" "Produced ''second text''" Failed "''abcdef''"]
  note c = cascade_order [of Failed "Produced ''cd''" "Produced ''third text''" "''abcdef''"]
  from a h3 have "invoked (runCascade (Produced ''abcdef'') (Produced ''second text'')
      (Produced ''third text'')) = [TrOCR]"
    by blast
  moreover from b i2 have "\<not> usable (Produced ''ab'')" by blast
  moreover from b h2
  have "Tesseract \<notin> set (invoked (runCascade (Produced ''ab'') (Produced ''second text'') Failed))"
    by blast
  moreover from c i3 have "\<not> usable Failed \<and> \<not> usable (Produced ''cd'')" by blast
  ultimately show ?thesis using h1 h2 h3 i2 i3 by blast
qed

text \<open>
  Claim C6 says that text is usable exactly when its trimmed length is at least 5, and
  that the run fails exactly when all three strategies are exhausted without usable
  text. It fails twice. Three strategies that each return a text of 3 characters are
  exhausted without usable text, yet the run analyses the last text. A first strategy
  that returns 6 spaces stops the cascade, and the run fails with two strategies
  never tried.
\<close>

theorem extraction_failure_counterexample:
  "\<not> usable (Produced ''abc'')
   \<and> invoked (runCascade (Produced ''abc'') (Produced ''abc'') (Produced ''abc''))
       = [TrOCR, OcrSpace, Tesseract]
   \<and> startScan offline offline (Produced ''abc'') (Produced ''abc'') (Produced ''abc'')
       = Inr (''abc'', performAnalysis offline offline ''abc'')
   \<and> \<not> usable (Produced ''      '')
   \<and> invoked (runCascade (Produced ''      '') (Produced ''second text'')
        (Produced ''third text'')) = [TrOCR]
   \<and> startScan offline offline (Produced ''      '') (Produced ''second text'')
        (Produced ''third text'') = Inl CouldNotExtract"
proof -
  have t1: "trim ''abc'' = ''abc''" by (simp add: trim_def isWhiteSpace_def)
  have t2: "trim ''      '' = []" by (simp add: trim_def isWhiteSpace_def)
  show ?thesis
    by (simp add: usable_def startScan_eq invoked_cases extracted_cases textOf_def t1 t2)
qed

text \<open>
  Claim C6, amended. The cascade goes on to the next strategy exactly when the text it
  holds has fewer than 5 characters, untrimmed. The run ends in the failure, with no
  analysis, exactly when the text held at the end of the cascade is empty once trimmed;
  otherwise that text is analysed. In particular the run ends in the failure when
  every strategy fails or returns text that is empty once trimmed.
\<close>

theorem extraction_failure:
  "(OcrSpace \<in> set (invoked (runCascade r1 r2 r3)) \<longleftrightarrow> length (textOf r1) < 5)
   \<and> (Tesseract \<in> set (invoked (runCascade r1 r2 r3)) \<longleftrightarrow>
        length (textOf r1) < 5
        \<and> length (case r2 of Produced t \<Rightarrow> t | Failed \<Rightarrow> textOf r1) < 5)
   \<and> (startScan fetchA fetchB r1 r2 r3 = Inl CouldNotExtract \<longleftrightarrow>
        trim (extracted (runCascade r1 r2 r3)) = [])
   \<and> (trim (extracted (runCascade r1 r2 r3)) \<noteq> [] \<longrightarrow>
        startScan fetchA fetchB r1 r2 r3 =
          Inr (extracted (runCascade r1 r2 r3),
               performAnalysis fetchA fetchB (extracted (runCascade r1 r2 r3))))
   \<and> (blank r1 \<and> blank r2 \<and> blank r3 \<longrightarrow>
        startScan fetchA fetchB r1 r2 r3 = Inl CouldNotExtract)"
proof -
  have b: "blank r1 \<and> blank r2 \<and> blank r3 \<longrightarrow> trim (extracted (runCascade r1 r2 r3)) = []"
    using trim_Nil
    by (cases r1; cases r2; cases r3) (auto simp: extracted_cases blank_def textOf_def)
  show ?thesis
    using b by (auto simp: startScan_eq invoked_cases)
qed

theorem extraction_failure_witness:
  "blank (Produced ''  '') \<and> blank Failed \<and> blank (Produced [])
   \<and> startScan offline offline (Produced ''  '') Failed (Produced []) = Inl CouldNotExtract
   \<and> trim (extracted (runCascade (Produced ''ab'') Failed Failed)) \<noteq> []
   \<and> startScan offline offline (Produced ''ab'') Failed Failed
       = Inr (''ab'', performAnalysis offline offline ''ab'')"
proof -
  have t1: "trim ''  '' = []" by (simp add: trim_def isWhiteSpace_def)
  have t2: "trim ''ab'' = ''ab''" by (simp add: trim_def isWhiteSpace_def)
  have b: "blank (Produced ''  '') \<and> blank Failed \<and> blank (Produced [])"
    by (simp add: blank_def t1 trim_Nil)
  have e: "extracted (runCascade (Produced ''ab'') Failed Failed) = ''ab''"
    by (simp add: extracted_cases textOf_def)
  have n: "trim (extracted (runCascade (Produced ''ab'') Failed Failed)) \<noteq> []"
    by (simp add: e t2)
  from extraction_failure [of "Produced ''  ''" Failed "Produced []" offline offline] b
  have "startScan offline offline (Produced ''  '') Failed (Produced []) = Inl CouldNotExtract"
    by blast
  moreover from extraction_failure [of "Produced ''ab''" Failed Failed offline offline] n
  have "startScan offline offline (Produced ''ab'') Failed Failed
      = Inr (extracted (runCascade (Produced ''ab'') Failed Failed),
             performAnalysis offline offline (extracted (runCascade (Produced ''ab'') Failed Failed)))"
    by blast
  ultimately show ?thesis using b n by (simp add: e)
qed

end
